theory Spec2Isabelle
  imports Main
begin

section \<open>The gap buffer of the text editor\<close>

text \<open>
  Source: class \<open>GapBuffer\<close> of \<^verbatim>\<open>simple_text_editor.py\<close>. The class keeps two Python lists of strings, \<open>start_buffer\<close> and
  \<open>end_buffer\<close>, and three integers. A Python string is a list of code points; the
  alphabet of code points is the type parameter \<open>'c\<close>. The elements of the two lists are
  strings: one code point each when they come from \<open>list(initial_text)\<close> or from a key
  press, and the empty string \<open>''\<close> when they come from \<open>_expand_gap\<close>.
  Python integers are unbounded, so the three counters are of type \<open>int\<close>.
\<close>

type_synonym 'c str = "'c list"

datatype error = IndexError

record 'c GapBuffer =
  buffer_size :: int
  start_buffer :: "'c str list"
  gap_index :: int
  gap_length :: int
  end_buffer :: "'c str list"

text \<open>\<open>__init__(self, initial_text="", buffer_size=1000)\<close>\<close>

definition default_buffer_size :: int where
  "default_buffer_size = 1000"

definition construct :: "'c str \<Rightarrow> int \<Rightarrow> 'c GapBuffer" where
  "construct initial_text bsize =
     \<lparr> buffer_size = bsize,
       start_buffer = map (\<lambda>c. [c]) initial_text,
       gap_index = int (length initial_text),
       gap_length = bsize - int (length initial_text),
       end_buffer = [] \<rparr>"

text \<open>\<open>get_text\<close>: \<open>''.join(self.start_buffer + self.end_buffer)\<close>\<close>

definition get_text :: "'c GapBuffer \<Rightarrow> 'c str" where
  "get_text s = concat (start_buffer s @ end_buffer s)"

text \<open>
  \<open>_expand_gap\<close>. The list \<open>[''] * n\<close> is empty when \<open>n\<close> is negative, which
  \<open>nat\<close> renders; the counter \<open>gap_length\<close> takes the signed difference.
\<close>

definition expand_gap :: "'c GapBuffer \<Rightarrow> 'c GapBuffer" where
  "expand_gap s =
     (let new_buffer_size = buffer_size s * 2;
          new_start = start_buffer s @ replicate (nat (new_buffer_size - buffer_size s)) []
      in s \<lparr> start_buffer := new_start,
             gap_length := gap_length s + (new_buffer_size - buffer_size s),
             buffer_size := new_buffer_size \<rparr>)"

text \<open>\<open>insert(self, char)\<close>\<close>

definition insert_gb :: "'c str \<Rightarrow> 'c GapBuffer \<Rightarrow> 'c GapBuffer" where
  "insert_gb char s =
     (let s1 = (if gap_length s = 0 then expand_gap s else s)
      in s1 \<lparr> start_buffer := start_buffer s1 @ [char],
              gap_index := gap_index s1 + 1,
              gap_length := gap_length s1 - 1 \<rparr>)"

text \<open>
  Python's \<open>list.pop()\<close> and \<open>list.pop(0)\<close>: both raise \<open>IndexError\<close> on the empty
  list.
\<close>

definition pop :: "'a list \<Rightarrow> error + ('a \<times> 'a list)" where
  "pop xs = (if xs = [] then Inl IndexError else Inr (last xs, butlast xs))"

definition pop0 :: "'a list \<Rightarrow> error + ('a \<times> 'a list)" where
  "pop0 xs = (case xs of [] \<Rightarrow> Inl IndexError | x # rest \<Rightarrow> Inr (x, rest))"

text \<open>
  \<open>delete\<close> (backspace) and \<open>delete_forward\<close>. The result is the returned value
  (\<open>None\<close> for Python's \<open>None\<close>) with the state after the call, or the exception.
\<close>

definition delete :: "'c GapBuffer \<Rightarrow> error + ('c str option \<times> 'c GapBuffer)" where
  "delete s =
     (if gap_index s > 0 then
        (let s1 = s \<lparr> gap_index := gap_index s - 1, gap_length := gap_length s + 1 \<rparr>
         in case pop (start_buffer s1) of
              Inl e \<Rightarrow> Inl e
            | Inr (c, rest) \<Rightarrow> Inr (Some c, s1 \<lparr> start_buffer := rest \<rparr>))
      else Inr (None, s))"

definition delete_forward :: "'c GapBuffer \<Rightarrow> error + ('c str option \<times> 'c GapBuffer)" where
  "delete_forward s =
     (if end_buffer s \<noteq> [] then
        (let s1 = s \<lparr> gap_length := gap_length s + 1 \<rparr>
         in case pop0 (end_buffer s1) of
              Inl e \<Rightarrow> Inl e
            | Inr (c, rest) \<Rightarrow> Inr (Some c, s1 \<lparr> end_buffer := rest \<rparr>))
      else Inr (None, s))"

text \<open>\<open>move_cursor_left\<close> and \<open>move_cursor_right\<close>\<close>

definition move_cursor_left :: "'c GapBuffer \<Rightarrow> error + 'c GapBuffer" where
  "move_cursor_left s =
     (if gap_index s > 0 then
        (let s1 = s \<lparr> gap_index := gap_index s - 1, gap_length := gap_length s + 1 \<rparr>
         in case pop (start_buffer s1) of
              Inl e \<Rightarrow> Inl e
            | Inr (char, rest) \<Rightarrow>
                Inr (s1 \<lparr> start_buffer := rest, end_buffer := char # end_buffer s1 \<rparr>))
      else Inr s)"

definition move_cursor_right :: "'c GapBuffer \<Rightarrow> error + 'c GapBuffer" where
  "move_cursor_right s =
     (if end_buffer s \<noteq> [] then
        (let s1 = s \<lparr> gap_length := gap_length s - 1, gap_index := gap_index s + 1 \<rparr>
         in case pop0 (end_buffer s1) of
              Inl e \<Rightarrow> Inl e
            | Inr (char, rest) \<Rightarrow>
                Inr (s1 \<lparr> end_buffer := rest, start_buffer := start_buffer s1 @ [char] \<rparr>))
      else Inr s)"

text \<open>
  \<open>move_cursor_to\<close>. Each of its two \<open>while\<close> loops calls a step that may leave the
  state as it is, so a loop may run forever: the loops are partial functions, \<open>None\<close>
  standing for a call that never returns.
\<close>

partial_function (option) move_left_loop ::
  "int \<Rightarrow> 'c GapBuffer \<Rightarrow> (error + 'c GapBuffer) option" where
  "move_left_loop position s =
     (if gap_index s > position then
        (case move_cursor_left s of
           Inl e \<Rightarrow> Some (Inl e)
         | Inr s' \<Rightarrow> move_left_loop position s')
      else Some (Inr s))"

partial_function (option) move_right_loop ::
  "int \<Rightarrow> 'c GapBuffer \<Rightarrow> (error + 'c GapBuffer) option" where
  "move_right_loop position s =
     (if gap_index s < position then
        (case move_cursor_right s of
           Inl e \<Rightarrow> Some (Inl e)
         | Inr s' \<Rightarrow> move_right_loop position s')
      else Some (Inr s))"

definition move_cursor_to :: "int \<Rightarrow> 'c GapBuffer \<Rightarrow> (error + 'c GapBuffer) option" where
  "move_cursor_to position s =
     (let current_pos = gap_index s
      in if position < current_pos then move_left_loop position s
         else if position > current_pos then move_right_loop position s
         else Some (Inr s))"

text \<open>\<open>get_cursor_position\<close>\<close>

definition get_cursor_position :: "'c GapBuffer \<Rightarrow> int" where
  "get_cursor_position s = gap_index s"

section \<open>Sequences of calls\<close>

text \<open>
  The buffer is driven by its client one call at a time (the editor's \<open>on_key_press\<close>
  and \<open>on_click\<close> do exactly this). A call is an \<open>op\<close>; \<open>Insert c\<close> is
  \<open>insert\<close> with the one-character string \<open>c\<close>, as the key handler passes it.
  \<open>apply_op\<close> performs one call and \<open>run\<close> a sequence of them from left to right,
  stopping at the first exception; the result is \<open>None\<close> when a call never returns.
  The states reachable from the constructor are the states \<open>s\<close> with
  \<open>run evs (construct initial_text bsize) = Some (Inr s)\<close>.
\<close>

datatype 'c op = Insert 'c | Delete | DeleteForward | MoveLeft | MoveRight | MoveTo int

definition apply_op :: "'c op \<Rightarrow> 'c GapBuffer \<Rightarrow> (error + 'c GapBuffer) option" where
  "apply_op ev s =
     (case ev of
        Insert c \<Rightarrow> Some (Inr (insert_gb [c] s))
      | Delete \<Rightarrow> Some (map_sum id snd (delete s))
      | DeleteForward \<Rightarrow> Some (map_sum id snd (delete_forward s))
      | MoveLeft \<Rightarrow> Some (move_cursor_left s)
      | MoveRight \<Rightarrow> Some (move_cursor_right s)
      | MoveTo position \<Rightarrow> move_cursor_to position s)"

fun run :: "'c op list \<Rightarrow> 'c GapBuffer \<Rightarrow> (error + 'c GapBuffer) option" where
  "run [] s = Some (Inr s)"
| "run (ev # evs) s =
     (case apply_op ev s of
        None \<Rightarrow> None
      | Some (Inl e) \<Rightarrow> Some (Inl e)
      | Some (Inr s') \<Rightarrow> run evs s')"

text \<open>
  The number of empty strings in a list of strings, and the invariant that the reachable
  states keep: the cursor is not negative, and the cursor together with the empty strings
  held in both lists does not exceed the length of \<open>start_buffer\<close>.
\<close>

definition pad_count :: "'c str list \<Rightarrow> nat" where
  "pad_count xs = length (filter (\<lambda>x. x = []) xs)"

definition inv_gb :: "'c GapBuffer \<Rightarrow> bool" where
  "inv_gb s \<longleftrightarrow>
     0 \<le> gap_index s \<and>
     gap_index s + int (pad_count (start_buffer s @ end_buffer s)) \<le> int (length (start_buffer s))"

section \<open>Evaluation rules and basic facts\<close>

lemmas gb_eval = construct_def insert_gb_def expand_gap_def delete_def delete_forward_def
  move_cursor_left_def move_cursor_right_def move_cursor_to_def apply_op_def pop_def pop0_def
  get_text_def get_cursor_position_def Let_def

lemma pad_count_simps [simp]:
  "pad_count [] = 0"
  "pad_count (x # xs) = (if x = [] then 1 else 0) + pad_count xs"
  "pad_count (xs @ ys) = pad_count xs + pad_count ys"
  "pad_count (replicate n []) = n"
  "pad_count (map (\<lambda>c. [c]) t) = 0"
  by (simp_all add: pad_count_def)

lemma pop_simps [simp]: "pop [] = Inl IndexError" "pop (ys @ [y]) = Inr (y, ys)"
  by (simp_all add: pop_def)

lemma pop0_simps [simp]: "pop0 [] = Inl IndexError" "pop0 (y # ys) = Inr (y, ys)"
  by (simp_all add: pop0_def)

lemma concat_pad: "length xs \<le> pad_count xs + length (concat xs)"
  by (induction xs) (auto simp: neq_Nil_conv)

lemma inv_construct: "inv_gb (construct t b)"
  by (simp add: inv_gb_def construct_def)

lemma inv_expand_gap: "inv_gb s \<Longrightarrow> inv_gb (expand_gap s)"
  by (simp add: inv_gb_def expand_gap_def Let_def)

lemma inv_insert: "inv_gb s \<Longrightarrow> inv_gb (insert_gb [c] s)"
  using inv_expand_gap[of s]
  by (simp add: inv_gb_def insert_gb_def Let_def)

lemma inv_start_snoc:
  assumes "inv_gb s" "0 < gap_index s"
  obtains ys y where "start_buffer s = ys @ [y]"
proof -
  from assms have "start_buffer s \<noteq> []" by (auto simp: inv_gb_def)
  then show thesis using that by (cases "start_buffer s" rule: rev_cases) auto
qed

lemma delete_inv:
  assumes "inv_gb s"
  shows "\<exists>r s'. delete s = Inr (r, s') \<and> inv_gb s' \<and> (r = None \<longleftrightarrow> gap_index s = 0)
           \<and> (r = None \<longrightarrow> s' = s)"
proof (cases "0 < gap_index s")
  case True
  with assms obtain ys y where "start_buffer s = ys @ [y]" by (rule inv_start_snoc)
  with True assms show ?thesis
    by (auto simp: delete_def inv_gb_def Let_def)
next
  case False
  with assms show ?thesis by (auto simp: delete_def inv_gb_def)
qed

lemma delete_forward_inv:
  assumes "inv_gb s"
  shows "\<exists>r s'. delete_forward s = Inr (r, s') \<and> inv_gb s' \<and> (r = None \<longleftrightarrow> end_buffer s = [])
           \<and> (r = None \<longrightarrow> s' = s)"
proof (cases "end_buffer s")
  case Nil
  with assms show ?thesis by (simp add: delete_forward_def)
next
  case (Cons y ys)
  with assms show ?thesis by (auto simp: delete_forward_def inv_gb_def Let_def)
qed

lemma move_cursor_left_inv:
  assumes "inv_gb s"
  shows "\<exists>s'. move_cursor_left s = Inr s' \<and> inv_gb s' \<and> get_text s' = get_text s
           \<and> gap_index s' = (if 0 < gap_index s then gap_index s - 1 else gap_index s)
           \<and> gap_index s' + int (length (end_buffer s')) = gap_index s + int (length (end_buffer s))"
proof (cases "0 < gap_index s")
  case True
  with assms obtain ys y where "start_buffer s = ys @ [y]" by (rule inv_start_snoc)
  with True assms show ?thesis
    by (auto simp: move_cursor_left_def inv_gb_def Let_def get_text_def)
next
  case False
  with assms show ?thesis by (auto simp: move_cursor_left_def inv_gb_def)
qed

lemma move_cursor_right_inv:
  assumes "inv_gb s"
  shows "\<exists>s'. move_cursor_right s = Inr s' \<and> inv_gb s' \<and> get_text s' = get_text s
           \<and> gap_index s' = (if end_buffer s \<noteq> [] then gap_index s + 1 else gap_index s)
           \<and> gap_index s' + int (length (end_buffer s')) = gap_index s + int (length (end_buffer s))"
proof (cases "end_buffer s")
  case Nil
  with assms show ?thesis by (simp add: move_cursor_right_def)
next
  case (Cons y ys)
  with assms show ?thesis
    by (auto simp: move_cursor_right_def inv_gb_def Let_def get_text_def)
qed


lemma move_left_loop_returns:
  "inv_gb s \<Longrightarrow> 0 \<le> position \<Longrightarrow> n = nat (gap_index s - position) \<Longrightarrow>
     \<exists>s'. move_left_loop position s = Some (Inr s') \<and> inv_gb s' \<and> get_text s' = get_text s
          \<and> gap_index s' = min position (gap_index s)"
proof (induction n arbitrary: s)
  case 0
  then show ?case by (subst move_left_loop.simps) simp
next
  case (Suc n)
  from Suc.prems have pos: "position < gap_index s" "0 < gap_index s" by linarith+
  from move_cursor_left_inv[OF Suc.prems(1)] pos obtain s1 where
    s1: "move_cursor_left s = Inr s1" "inv_gb s1" "get_text s1 = get_text s"
        "gap_index s1 = gap_index s - 1"
    by auto
  from Suc.prems s1 have "n = nat (gap_index s1 - position)" by linarith
  from Suc.IH[OF s1(2) Suc.prems(2) this] obtain s' where
    "move_left_loop position s1 = Some (Inr s')" "inv_gb s'" "get_text s' = get_text s1"
    "gap_index s' = min position (gap_index s1)"
    by blast
  with s1 pos show ?case by (subst move_left_loop.simps) simp
qed

lemma move_left_loop_diverges_aux:
  assumes "move_left_loop position s = Some y"
  shows "inv_gb s \<longrightarrow> 0 \<le> position \<or> gap_index s \<le> position"
proof (rule move_left_loop.raw_induct
    [where P = "\<lambda>position s y. inv_gb s \<longrightarrow> 0 \<le> position \<or> gap_index s \<le> position",
     OF _ assms], goal_cases)
  case (1 loop position s y)
  show ?case
  proof (intro impI)
    assume i: "inv_gb s"
    show "0 \<le> position \<or> gap_index s \<le> position"
    proof (rule ccontr)
      assume "\<not> (0 \<le> position \<or> gap_index s \<le> position)"
      then have neg: "position < 0" "position < gap_index s" by simp_all
      from move_cursor_left_inv[OF i] obtain s1 where
        s1: "move_cursor_left s = Inr s1" "inv_gb s1" by blast
      with 1(2) neg have "loop position s1 = Some y" by simp
      from 1(1)[OF this] s1 neg have "gap_index s1 \<le> position" by simp
      moreover from s1 have "0 \<le> gap_index s1" by (simp add: inv_gb_def)
      ultimately show False using neg by simp
    qed
  qed
qed

lemma move_left_loop_diverges:
  "inv_gb s \<Longrightarrow> position < 0 \<Longrightarrow> move_left_loop position s = None"
  using move_left_loop_diverges_aux[of position s]
  by (cases "move_left_loop position s") (auto simp: inv_gb_def)

lemma move_right_loop_returns:
  "inv_gb s \<Longrightarrow> position \<le> gap_index s + int (length (end_buffer s)) \<Longrightarrow>
   n = nat (position - gap_index s) \<Longrightarrow>
     \<exists>s'. move_right_loop position s = Some (Inr s') \<and> inv_gb s' \<and> get_text s' = get_text s
          \<and> gap_index s' = max position (gap_index s)"
proof (induction n arbitrary: s)
  case 0
  then show ?case by (subst move_right_loop.simps) simp
next
  case (Suc n)
  from Suc.prems have pos: "gap_index s < position" "end_buffer s \<noteq> []" by auto
  from move_cursor_right_inv[OF Suc.prems(1)] pos obtain s1 where
    s1: "move_cursor_right s = Inr s1" "inv_gb s1" "get_text s1 = get_text s"
        "gap_index s1 = gap_index s + 1"
        "gap_index s1 + int (length (end_buffer s1)) = gap_index s + int (length (end_buffer s))"
    by auto
  from Suc.prems s1 have "n = nat (position - gap_index s1)"
    "position \<le> gap_index s1 + int (length (end_buffer s1))" by linarith+
  from Suc.IH[OF s1(2) this(2) this(1)] obtain s' where
    "move_right_loop position s1 = Some (Inr s')" "inv_gb s'" "get_text s' = get_text s1"
    "gap_index s' = max position (gap_index s1)"
    by blast
  with s1 pos show ?case by (subst move_right_loop.simps) simp
qed

lemma move_right_loop_diverges_aux:
  assumes "move_right_loop position s = Some y"
  shows "inv_gb s \<longrightarrow> position \<le> gap_index s + int (length (end_buffer s))"
proof (rule move_right_loop.raw_induct
    [where P = "\<lambda>position s y. inv_gb s \<longrightarrow> position \<le> gap_index s + int (length (end_buffer s))",
     OF _ assms], goal_cases)
  case (1 loop position s y)
  show ?case
  proof (intro impI)
    assume i: "inv_gb s"
    show "position \<le> gap_index s + int (length (end_buffer s))"
    proof (rule ccontr)
      assume "\<not> position \<le> gap_index s + int (length (end_buffer s))"
      then have far: "gap_index s + int (length (end_buffer s)) < position" by simp
      then have lt: "gap_index s < position" by linarith
      from move_cursor_right_inv[OF i] obtain s1 where
        s1: "move_cursor_right s = Inr s1" "inv_gb s1"
            "gap_index s1 + int (length (end_buffer s1)) = gap_index s + int (length (end_buffer s))"
        by blast
      with 1(2) lt have "loop position s1 = Some y" by simp
      from 1(1)[OF this] s1 far show False by simp
    qed
  qed
qed

lemma move_right_loop_diverges:
  "inv_gb s \<Longrightarrow> gap_index s + int (length (end_buffer s)) < position \<Longrightarrow>
     move_right_loop position s = None"
  using move_right_loop_diverges_aux[of position s]
  by (cases "move_right_loop position s") auto

lemma move_cursor_to_returns:
  assumes "inv_gb s" "0 \<le> position" "position \<le> gap_index s + int (length (end_buffer s))"
  shows "\<exists>s'. move_cursor_to position s = Some (Inr s') \<and> inv_gb s' \<and> get_text s' = get_text s
          \<and> gap_index s' = position"
proof -
  consider "position < gap_index s" | "position = gap_index s" | "gap_index s < position"
    by linarith
  then show ?thesis
  proof cases
    case 1
    with move_left_loop_returns[OF assms(1,2) refl] show ?thesis
      by (auto simp: move_cursor_to_def)
  next
    case 2
    with assms show ?thesis by (simp add: move_cursor_to_def)
  next
    case 3
    with move_right_loop_returns[OF assms(1,3) refl] show ?thesis
      by (auto simp: move_cursor_to_def)
  qed
qed

lemma move_cursor_to_diverges:
  assumes "inv_gb s" "position < 0 \<or> gap_index s + int (length (end_buffer s)) < position"
  shows "move_cursor_to position s = None"
proof -
  from assms(1) have nn: "0 \<le> gap_index s" by (simp add: inv_gb_def)
  from assms(2) show ?thesis
  proof
    assume "position < 0"
    with nn move_left_loop_diverges[OF assms(1) this] show ?thesis
      by (simp add: move_cursor_to_def)
  next
    assume far: "gap_index s + int (length (end_buffer s)) < position"
    then have "gap_index s < position" by linarith
    with move_right_loop_diverges[OF assms(1) far] show ?thesis
      by (simp add: move_cursor_to_def)
  qed
qed

lemma apply_op_inv:
  assumes "inv_gb s" "apply_op ev s = Some r"
  shows "\<exists>s'. r = Inr s' \<and> inv_gb s'"
proof (cases ev)
  case (Insert c)
  with assms show ?thesis by (auto simp: apply_op_def inv_insert)
next
  case Delete
  with assms delete_inv[OF assms(1)] show ?thesis by (auto simp: apply_op_def)
next
  case DeleteForward
  with assms delete_forward_inv[OF assms(1)] show ?thesis by (auto simp: apply_op_def)
next
  case MoveLeft
  with assms move_cursor_left_inv[OF assms(1)] show ?thesis by (auto simp: apply_op_def)
next
  case MoveRight
  with assms move_cursor_right_inv[OF assms(1)] show ?thesis by (auto simp: apply_op_def)
next
  case (MoveTo position)
  show ?thesis
  proof (cases "0 \<le> position \<and> position \<le> gap_index s + int (length (end_buffer s))")
    case True
    with move_cursor_to_returns[OF assms(1), of position] assms(2) MoveTo show ?thesis
      by (auto simp: apply_op_def)
  next
    case False
    then have "position < 0 \<or> gap_index s + int (length (end_buffer s)) < position" by linarith
    from move_cursor_to_diverges[OF assms(1) this] assms(2) MoveTo show ?thesis
      by (simp add: apply_op_def)
  qed
qed

lemma run_inv: "inv_gb s \<Longrightarrow> run evs s = Some r \<Longrightarrow> \<exists>s'. r = Inr s' \<and> inv_gb s'"
proof (induction evs arbitrary: s)
  case Nil
  then show ?case by auto
next
  case (Cons ev evs)
  from Cons.prems(2) obtain r1 where r1: "apply_op ev s = Some r1"
    by (cases "apply_op ev s") auto
  from apply_op_inv[OF Cons.prems(1) r1] obtain s1 where s1: "r1 = Inr s1" "inv_gb s1" by blast
  with r1 Cons.prems(2) have "run evs s1 = Some r" by simp
  from Cons.IH[OF s1(2) this] show ?case .
qed

lemma reachable_inv: "run evs (construct t b) = Some (Inr s) \<Longrightarrow> inv_gb s"
  using run_inv[OF inv_construct, of evs t b "Inr s"] by simp

lemma cursor_le_text: "inv_gb s \<Longrightarrow> gap_index s \<le> int (length (get_text s))"
  using concat_pad[of "start_buffer s"]
  by (simp add: inv_gb_def get_text_def)

lemma get_text_expand_gap: "get_text (expand_gap s) = get_text s"
  by (simp add: get_text_def expand_gap_def Let_def)

lemma get_text_insert_gb:
  "get_text (insert_gb c s) = concat (start_buffer s) @ c @ concat (end_buffer s)"
  by (simp add: get_text_def insert_gb_def expand_gap_def Let_def)

lemma end_buffer_insert_gb: "end_buffer (insert_gb c s) = end_buffer s"
  by (simp add: insert_gb_def expand_gap_def Let_def)

lemma get_text_fold_insert:
  "end_buffer s = [] \<Longrightarrow> get_text (fold (\<lambda>c. insert_gb [c]) cs s) = get_text s @ cs"
proof (induction cs arbitrary: s)
  case Nil
  then show ?case by simp
next
  case (Cons c cs)
  have "end_buffer (insert_gb [c] s) = []"
    using Cons.prems by (simp add: end_buffer_insert_gb)
  from Cons.IH[OF this]
  have "get_text (fold (\<lambda>c. insert_gb [c]) (c # cs) s) = get_text (insert_gb [c] s) @ cs"
    by simp
  also have "get_text (insert_gb [c] s) = get_text s @ [c]"
    using Cons.prems by (simp add: get_text_insert_gb) (simp add: get_text_def)
  finally show ?case by simp
qed

lemma run_map_Insert:
  "run (map Insert cs) s = Some (Inr (fold (\<lambda>c. insert_gb [c]) cs s))"
  by (induction cs arbitrary: s) (simp_all add: apply_op_def)

section \<open>The claims\<close>

text \<open>
  Claim C1 (cursor equals the length of \<open>start_buffer\<close> in every reachable state, also
  right after \<open>_expand_gap\<close>). The code does not keep this: \<open>_expand_gap\<close> appends
  \<open>buffer_size\<close> empty strings to \<open>start_buffer\<close> and leaves \<open>gap_index\<close> alone.
  After \<open>GapBuffer("a", 1)\<close> and \<open>insert("c")\<close> the cursor is 2 and \<open>start_buffer\<close> has
  3 elements; with the default size, \<open>_expand_gap\<close> on a buffer built from 1000
  characters leaves the cursor at 1000 and \<open>start_buffer\<close> with 2000 elements.
\<close>

theorem expand_gap_desynchronises_cursor:
  "run [Insert CHR ''c''] (construct ''a'' 1) =
       Some (Inr \<lparr>buffer_size = 2, start_buffer = [''a'', [], ''c''], gap_index = 2,
                  gap_length = 0, end_buffer = []\<rparr>)
   \<and> get_cursor_position (insert_gb ''c'' (construct ''a'' 1)) = 2
   \<and> length (start_buffer (insert_gb ''c'' (construct ''a'' 1))) = 3
   \<and> get_cursor_position
        (expand_gap (construct (replicate 1000 CHR ''x'') default_buffer_size)) = 1000
   \<and> length (start_buffer
        (expand_gap (construct (replicate 1000 CHR ''x'') default_buffer_size))) = 2000"
  by (simp add: gb_eval default_buffer_size_def)

text \<open>
  Claim C2 (\<open>move_cursor_to\<close> with a target between 0 and the length of the text returns
  with the cursor on the target). After \<open>GapBuffer("a", 1)\<close>, \<open>insert("c")\<close> and two calls
  of \<open>delete\<close> (the second removes a padding string) the text is \<open>"a"\<close>, the cursor is 0
  and \<open>end_buffer\<close> is empty: \<open>move_cursor_to(1)\<close>, which is what the End key calls,
  never returns.
\<close>

theorem move_cursor_to_end_never_returns:
  "run [Insert CHR ''c'', Delete, Delete] (construct ''a'' 1) =
       Some (Inr \<lparr>buffer_size = 2, start_buffer = [''a''], gap_index = 0,
                  gap_length = 2, end_buffer = []\<rparr>)
   \<and> get_text \<lparr>buffer_size = 2, start_buffer = [''a''], gap_index = 0,
                  gap_length = 2, end_buffer = []\<rparr> = ''a''
   \<and> get_cursor_position \<lparr>buffer_size = 2, start_buffer = [''a''], gap_index = 0,
                  gap_length = 2, end_buffer = []\<rparr> = 0
   \<and> move_cursor_to 1 \<lparr>buffer_size = 2, start_buffer = [''a''], gap_index = 0,
                  gap_length = 2, end_buffer = []\<rparr> = None"
proof -
  let ?S = "\<lparr>buffer_size = 2, start_buffer = [''a''], gap_index = 0,
              gap_length = 2, end_buffer = []\<rparr>"
  have "inv_gb ?S" by (simp add: inv_gb_def)
  then have "move_cursor_to 1 ?S = None"
    by (rule move_cursor_to_diverges) simp
  then show ?thesis by (simp add: gb_eval)
qed

text \<open>
  Claim C3 (\<open>gap_length\<close> is \<open>max(0, buffer_size - len(initial_text))\<close> after the
  constructor and never negative). The constructor takes the plain difference:
  \<open>GapBuffer("x" * 1000, 10)\<close> starts with \<open>gap_length = -990\<close> and an insertion makes
  it \<open>-991\<close>. A negative value is also reached from a constructor call whose size covers
  the text: \<open>GapBuffer("a", 1)\<close>, \<open>move_cursor_left\<close>, \<open>insert("b")\<close>,
  \<open>move_cursor_right\<close> ends with \<open>gap_length = -1\<close>.
\<close>

theorem gap_length_negative:
  "gap_length (construct (replicate 1000 CHR ''x'') 10) = - 990
   \<and> gap_length (insert_gb ''y'' (construct (replicate 1000 CHR ''x'') 10)) = - 991
   \<and> run [MoveLeft, Insert CHR ''b'', MoveRight] (construct ''a'' 1) =
       Some (Inr \<lparr>buffer_size = 1, start_buffer = [''b'', ''a''], gap_index = 2,
                  gap_length = - 1, end_buffer = []\<rparr>)"
  by (simp add: gb_eval)

text \<open>
  Claim C4 (a deletion that returns something other than \<open>None\<close> shortens the text by
  one). After \<open>GapBuffer("a", 1)\<close>, \<open>insert("c")\<close>, \<open>delete()\<close> the next \<open>delete()\<close>
  returns the padding string \<open>''\<close>, which is not \<open>None\<close>, and the text keeps its
  length.
\<close>

theorem delete_returns_padding:
  "run [Insert CHR ''c'', Delete] (construct ''a'' 1) =
       Some (Inr \<lparr>buffer_size = 2, start_buffer = [''a'', []], gap_index = 1,
                  gap_length = 1, end_buffer = []\<rparr>)
   \<and> delete \<lparr>buffer_size = 2, start_buffer = [''a'', []], gap_index = 1,
               gap_length = 1, end_buffer = []\<rparr> =
       Inr (Some [], \<lparr>buffer_size = 2, start_buffer = [''a''], gap_index = 0,
                       gap_length = 2, end_buffer = []\<rparr>)
   \<and> length (get_text \<lparr>buffer_size = 2, start_buffer = [''a''], gap_index = 0,
                         gap_length = 2, end_buffer = []\<rparr>) =
     length (get_text \<lparr>buffer_size = 2, start_buffer = [''a'', []], gap_index = 1,
                         gap_length = 1, end_buffer = []\<rparr>)"
  by (simp add: gb_eval)

text \<open>
  Claim C5 (inserting at cursor \<open>p\<close> gives \<open>text[0:p] + char + text[p:]\<close>). After
  \<open>GapBuffer("a", 1)\<close>, \<open>insert("c")\<close> and two calls of \<open>move_cursor_left\<close> the text is
  \<open>"ac"\<close> and the cursor is 0; \<open>insert("Z")\<close> gives \<open>"aZc"\<close>, not \<open>"Zac"\<close>.
\<close>

theorem insert_not_at_cursor:
  "run [Insert CHR ''c'', MoveLeft, MoveLeft] (construct ''a'' 1) =
       Some (Inr \<lparr>buffer_size = 2, start_buffer = [''a''], gap_index = 0,
                  gap_length = 2, end_buffer = [[], ''c'']\<rparr>)
   \<and> get_text \<lparr>buffer_size = 2, start_buffer = [''a''], gap_index = 0,
                 gap_length = 2, end_buffer = [[], ''c'']\<rparr> = ''ac''
   \<and> get_cursor_position \<lparr>buffer_size = 2, start_buffer = [''a''], gap_index = 0,
                 gap_length = 2, end_buffer = [[], ''c'']\<rparr> = 0
   \<and> get_text (insert_gb ''Z'' \<lparr>buffer_size = 2, start_buffer = [''a''], gap_index = 0,
                 gap_length = 2, end_buffer = [[], ''c'']\<rparr>) = ''aZc''
   \<and> get_text (insert_gb ''Z'' \<lparr>buffer_size = 2, start_buffer = [''a''], gap_index = 0,
                 gap_length = 2, end_buffer = [[], ''c'']\<rparr>) \<noteq> take 0 ''ac'' @ ''Z'' @ drop 0 ''ac''"
  by (simp add: gb_eval)

text \<open>
  Claim C6: in every state reachable from the constructor by the operations, the cursor
  is between 0 and the length of the text.
\<close>

theorem cursor_within_text:
  "run evs (construct t b) = Some (Inr s) \<Longrightarrow>
     0 \<le> get_cursor_position s \<and> get_cursor_position s \<le> int (length (get_text s))"
  using reachable_inv[of evs t b s] cursor_le_text[of s]
  by (simp add: get_cursor_position_def inv_gb_def)

theorem cursor_within_text_witness:
  "run [Insert CHR ''c'', MoveLeft, MoveLeft] (construct ''a'' 1) =
       Some (Inr \<lparr>buffer_size = 2, start_buffer = [''a''], gap_index = 0,
                  gap_length = 2, end_buffer = [[], ''c'']\<rparr>)
   \<and> 0 \<le> get_cursor_position \<lparr>buffer_size = 2, start_buffer = [''a''], gap_index = 0,
                  gap_length = 2, end_buffer = [[], ''c'']\<rparr>
   \<and> get_cursor_position \<lparr>buffer_size = 2, start_buffer = [''a''], gap_index = 0,
                  gap_length = 2, end_buffer = [[], ''c'']\<rparr>
      \<le> int (length (get_text \<lparr>buffer_size = 2, start_buffer = [''a''], gap_index = 0,
                  gap_length = 2, end_buffer = [[], ''c'']\<rparr>))"
proof -
  have r: "run [Insert CHR ''c'', MoveLeft, MoveLeft] (construct ''a'' 1) =
       Some (Inr \<lparr>buffer_size = 2, start_buffer = [''a''], gap_index = 0,
                  gap_length = 2, end_buffer = [[], ''c'']\<rparr>)"
    by (simp add: gb_eval)
  from cursor_within_text[OF r] r show ?thesis by simp
qed

text \<open>
  Claim C7: starting from the empty buffer, of any size, a sequence of insertions of
  single characters and nothing else yields a text that is the inserted characters in
  order. Every call returns, and the sizes for which \<open>_expand_gap\<close> runs are included.
\<close>

theorem inserted_text_round_trip:
  "run (map Insert cs) (construct [] b) =
      Some (Inr (fold (\<lambda>c. insert_gb [c]) cs (construct [] b)))
   \<and> get_text (fold (\<lambda>c. insert_gb [c]) cs (construct [] b)) = cs"
proof -
  have "end_buffer (construct [] b :: 'a GapBuffer) = []"
    by (simp add: construct_def)
  then have "get_text (fold (\<lambda>c. insert_gb [c]) cs (construct [] b)) =
      get_text (construct [] b) @ cs"
    by (rule get_text_fold_insert)
  also have "get_text (construct [] b :: 'a GapBuffer) = []"
    by (simp add: construct_def get_text_def)
  finally show ?thesis by (simp add: run_map_Insert)
qed

text \<open>
  Claim C8: \<open>_expand_gap\<close> changes neither the text nor the cursor position, in any
  state.
\<close>

theorem expand_gap_keeps_text_and_cursor:
  "get_text (expand_gap s) = get_text s
   \<and> get_cursor_position (expand_gap s) = get_cursor_position s"
  by (simp add: get_text_expand_gap) (simp add: get_cursor_position_def expand_gap_def Let_def)

text \<open>
  Claim C9: in every reachable state \<open>delete\<close> and \<open>delete_forward\<close> return without
  an exception; \<open>delete\<close> returns \<open>None\<close> exactly when the cursor is 0,
  \<open>delete_forward\<close> exactly when \<open>end_buffer\<close> is empty, and a call that returns
  \<open>None\<close> leaves the whole state as it was.
\<close>

theorem delete_none_iff_noop:
  assumes "run evs (construct t b) = Some (Inr s)"
  shows "(\<exists>r s'. delete s = Inr (r, s') \<and> (r = None \<longleftrightarrow> get_cursor_position s = 0)
            \<and> (r = None \<longrightarrow> s' = s))
       \<and> (\<exists>r s'. delete_forward s = Inr (r, s') \<and> (r = None \<longleftrightarrow> end_buffer s = [])
            \<and> (r = None \<longrightarrow> s' = s))"
proof -
  from assms have i: "inv_gb s" by (rule reachable_inv)
  from delete_inv[OF i] delete_forward_inv[OF i] show ?thesis
    unfolding get_cursor_position_def by blast
qed

theorem delete_none_iff_noop_witness:
  "run [] (construct [] default_buffer_size) =
      Some (Inr (construct ([]::string) default_buffer_size))
   \<and> get_cursor_position (construct ([]::string) default_buffer_size) = 0
   \<and> end_buffer (construct ([]::string) default_buffer_size) = []
   \<and> delete (construct ([]::string) default_buffer_size) =
      Inr (None, construct [] default_buffer_size)
   \<and> delete_forward (construct ([]::string) default_buffer_size) =
      Inr (None, construct [] default_buffer_size)"
  using delete_none_iff_noop
    [of "[]" "[]::string" default_buffer_size "construct [] default_buffer_size"]
  by (simp add: gb_eval)

text \<open>
  Claim C10: in every reachable state, also one that \<open>_expand_gap\<close> has padded,
  \<open>move_cursor_left\<close> and \<open>move_cursor_right\<close> return with the text unchanged, and
  every call of \<open>move_cursor_to\<close> that returns does so without an exception and with the
  text unchanged. \<open>move_cursor_to\<close> returns exactly for the targets from 0 to the cursor
  plus the length of \<open>end_buffer\<close>.
\<close>

theorem cursor_moves_keep_text:
  assumes "run evs (construct t b) = Some (Inr s)"
  shows "(\<exists>s'. move_cursor_left s = Inr s' \<and> get_text s' = get_text s)
       \<and> (\<exists>s'. move_cursor_right s = Inr s' \<and> get_text s' = get_text s)
       \<and> (move_cursor_to position s = None \<longleftrightarrow>
            position < 0 \<or> get_cursor_position s + int (length (end_buffer s)) < position)
       \<and> (\<forall>r. move_cursor_to position s = Some r \<longrightarrow>
            (\<exists>s'. r = Inr s' \<and> get_text s' = get_text s))"
proof -
  from assms have i: "inv_gb s" by (rule reachable_inv)
  have l: "\<exists>s'. move_cursor_left s = Inr s' \<and> get_text s' = get_text s"
    using move_cursor_left_inv[OF i] by blast
  have r: "\<exists>s'. move_cursor_right s = Inr s' \<and> get_text s' = get_text s"
    using move_cursor_right_inv[OF i] by blast
  have t: "(move_cursor_to position s = None \<longleftrightarrow>
            position < 0 \<or> gap_index s + int (length (end_buffer s)) < position)
       \<and> (\<forall>r. move_cursor_to position s = Some r \<longrightarrow>
            (\<exists>s'. r = Inr s' \<and> get_text s' = get_text s))"
  proof (cases "0 \<le> position \<and> position \<le> gap_index s + int (length (end_buffer s))")
    case True
    with move_cursor_to_returns[OF i, of position] show ?thesis by auto
  next
    case False
    then have "position < 0 \<or> gap_index s + int (length (end_buffer s)) < position"
      by linarith
    with move_cursor_to_diverges[OF i this] show ?thesis by simp
  qed
  from l r t show ?thesis unfolding get_cursor_position_def by blast
qed

theorem cursor_moves_keep_text_witness:
  "run [Insert CHR ''c''] (construct ''a'' 1) =
       Some (Inr \<lparr>buffer_size = 2, start_buffer = [''a'', [], ''c''], gap_index = 2,
                  gap_length = 0, end_buffer = []\<rparr>)
   \<and> move_cursor_to 0 \<lparr>buffer_size = 2, start_buffer = [''a'', [], ''c''], gap_index = 2,
                  gap_length = 0, end_buffer = []\<rparr> =
       Some (Inr \<lparr>buffer_size = 2, start_buffer = [''a''], gap_index = 0,
                  gap_length = 2, end_buffer = [[], ''c'']\<rparr>)
   \<and> get_text \<lparr>buffer_size = 2, start_buffer = [''a''], gap_index = 0,
                  gap_length = 2, end_buffer = [[], ''c'']\<rparr> =
     get_text \<lparr>buffer_size = 2, start_buffer = [''a'', [], ''c''], gap_index = 2,
                  gap_length = 0, end_buffer = []\<rparr>"
proof -
  have r: "run [Insert CHR ''c''] (construct ''a'' 1) =
       Some (Inr \<lparr>buffer_size = 2, start_buffer = [''a'', [], ''c''], gap_index = 2,
                  gap_length = 0, end_buffer = []\<rparr>)"
    by (simp add: gb_eval)
  from cursor_moves_keep_text[OF r, of 0] r show ?thesis
    by (simp add: gb_eval move_left_loop.simps)
qed

end
